theory Spec2Isabelle
  imports Complex_Main
begin

section \<open>The sound-effect hook (src/utils/Hooks/useSoundEffect.ts)\<close>

text \<open>
  JavaScript numbers are modelled as \<^typ>\<open>real\<close>: the hook only compares them, takes
  minima and maxima, and computes one rounded-down product. \<open>NaN\<close> and the infinities
  are outside the model.

  The browser's side of the hook is part of the state: the \<open>Audio\<close> elements that
  have been constructed (a store from addresses to elements and the next free
  address), the pending timeouts (handle and delay, in the order they were set) and
  the console.
\<close>

subsection \<open>Browser primitives\<close>

datatype error = IndexSizeError | TypeError

datatype play_error = NotAllowedError | NotSupportedError | AbortError

record audio =
  el_src :: string
  el_volume :: real
  el_loop :: bool
  el_preload :: string
  el_paused :: bool
  el_currentTime :: real
  el_onended :: bool

record hook =
  audioRef :: "nat option"
  intervalRef :: "nat option"
  isActiveRef :: bool
  isPlaying :: bool
  currentVolume :: real
  audios :: "nat \<Rightarrow> audio"
  nextAudio :: nat
  timers :: "(nat \<times> real) list"
  nextTimer :: nat
  console :: "(string \<times> play_error) list"

record options =
  soundUrl :: string
  preload :: bool
  loop :: bool
  playRandomly :: bool
  minInterval :: real
  maxInterval :: real
  autoplay :: bool

text \<open>\<open>new Audio(url)\<close>: a fresh element, paused at time 0, at full volume, with no
  listener; its address is returned.\<close>

definition new_Audio :: "string \<Rightarrow> hook \<Rightarrow> nat \<times> hook" where
  "new_Audio url s =
     (nextAudio s,
      s\<lparr>audios := (audios s)(nextAudio s :=
            \<lparr>el_src = url, el_volume = 1, el_loop = False, el_preload = ''auto'',
             el_paused = True, el_currentTime = 0, el_onended = False\<rparr>),
        nextAudio := Suc (nextAudio s)\<rparr>)"

text \<open>The setter of \<open>HTMLMediaElement.volume\<close> throws an \<open>IndexSizeError\<close> for a value
  outside [0, 1].\<close>

definition set_volume :: "nat \<Rightarrow> real \<Rightarrow> hook \<Rightarrow> error + hook" where
  "set_volume a v s =
     (if 0 \<le> v \<and> v \<le> 1
      then Inr (s\<lparr>audios := (audios s)(a := (audios s a)\<lparr>el_volume := v\<rparr>)\<rparr>)
      else Inl IndexSizeError)"

definition pause :: "nat \<Rightarrow> hook \<Rightarrow> hook" where
  "pause a s = s\<lparr>audios := (audios s)(a := (audios s a)\<lparr>el_paused := True\<rparr>)\<rparr>"

definition set_currentTime :: "nat \<Rightarrow> real \<Rightarrow> hook \<Rightarrow> hook" where
  "set_currentTime a t s = s\<lparr>audios := (audios s)(a := (audios s a)\<lparr>el_currentTime := t\<rparr>)\<rparr>"

definition set_loop :: "nat \<Rightarrow> bool \<Rightarrow> hook \<Rightarrow> hook" where
  "set_loop a b s = s\<lparr>audios := (audios s)(a := (audios s a)\<lparr>el_loop := b\<rparr>)\<rparr>"

definition set_preload :: "nat \<Rightarrow> string \<Rightarrow> hook \<Rightarrow> hook" where
  "set_preload a p s = s\<lparr>audios := (audios s)(a := (audios s a)\<lparr>el_preload := p\<rparr>)\<rparr>"

text \<open>\<open>audio.play()\<close> starts playback and returns a promise; a rejection of that
  promise arrives later, as an event of its own (\<open>play_rejected\<close> below).\<close>

definition play_audio :: "nat \<Rightarrow> hook \<Rightarrow> hook" where
  "play_audio a s = s\<lparr>audios := (audios s)(a := (audios s a)\<lparr>el_paused := False\<rparr>)\<rparr>"

definition addEventListener_ended :: "nat \<Rightarrow> hook \<Rightarrow> hook" where
  "addEventListener_ended a s = s\<lparr>audios := (audios s)(a := (audios s a)\<lparr>el_onended := True\<rparr>)\<rparr>"

text \<open>\<open>setTimeout\<close> hands out a fresh handle; \<open>clearInterval\<close> removes a pending
  timeout (timeouts and intervals share one pool of handles) and does nothing for a
  handle that is not pending.\<close>

definition setTimeout :: "real \<Rightarrow> hook \<Rightarrow> nat \<times> hook" where
  "setTimeout delay s =
     (nextTimer s,
      s\<lparr>timers := timers s @ [(nextTimer s, delay)], nextTimer := Suc (nextTimer s)\<rparr>)"

definition clearInterval :: "nat \<Rightarrow> hook \<Rightarrow> hook" where
  "clearInterval h s = s\<lparr>timers := filter (\<lambda>t. fst t \<noteq> h) (timers s)\<rparr>"

subsection \<open>The hook's callbacks\<close>

text \<open>\<open>Math.min(1, Math.max(0, v))\<close>, as lines 63, 130 and 172 write it.\<close>

definition clamp01 :: "real \<Rightarrow> real" where
  "clamp01 v = min 1 (max 0 v)"

text \<open>Lines 121-154. The argument \<open>cv\<close> is the \<open>currentVolume\<close> that the closure
  being called has captured: \<open>useCallback\<close> keeps a closure until one of its
  dependencies changes, so a caller may hold one from an earlier render.\<close>

definition playSoundEffect :: "options \<Rightarrow> real \<Rightarrow> hook \<Rightarrow> error + hook" where
  "playSoundEffect opts cv s =
     (let s1 = (case audioRef s of
                  Some a \<Rightarrow> set_currentTime a 0 (pause a s)
                | None \<Rightarrow> s);
          (audio, s2) = new_Audio (soundUrl opts) s1
      in case set_volume audio (clamp01 cv) s2 of
           Inl e \<Rightarrow> Inl e
         | Inr s3 \<Rightarrow>
             (let s4 = set_loop audio (loop opts) s3;
                  s5 = s4\<lparr>audioRef := Some audio\<rparr>;
                  s6 = s5\<lparr>isPlaying := True\<rparr>;
                  s7 = play_audio audio s6
              in Inr (if \<not> loop opts then addEventListener_ended audio s7 else s7)))"

text \<open>Lines 140-143, the handler given to \<open>catch\<close>: it runs when the promise of
  \<open>audio.play()\<close> rejects.\<close>

definition play_rejected :: "play_error \<Rightarrow> hook \<Rightarrow> hook" where
  "play_rejected err s =
     (let s1 = s\<lparr>console := console s @ [(''Error playing sound effect:'', err)]\<rparr>
      in s1\<lparr>isPlaying := False\<rparr>)"

text \<open>Lines 147-152, the listener for \<open>ended\<close> that \<open>playSoundEffect\<close> registers on
  the element \<open>audio\<close>.\<close>

definition on_ended :: "nat \<Rightarrow> hook \<Rightarrow> hook" where
  "on_ended audio s =
     (if audioRef s = Some audio
      then s\<lparr>audioRef := None, isPlaying := False\<rparr>
      else s)"

text \<open>Lines 156-163.\<close>

definition stopSoundEffect :: "hook \<Rightarrow> hook" where
  "stopSoundEffect s =
     (case audioRef s of
        Some a \<Rightarrow>
          (let s1 = pause a s;
               s2 = set_currentTime a 0 s1;
               s3 = s2\<lparr>audioRef := None\<rparr>
           in s3\<lparr>isPlaying := False\<rparr>)
      | None \<Rightarrow> s)"

text \<open>Lines 170-183: the clamped volume is returned together with the new state.\<close>

definition adjustVolume :: "real \<Rightarrow> hook \<Rightarrow> error + (real \<times> hook)" where
  "adjustVolume newVolume s =
     (let clampedVolume = clamp01 newVolume;
          s1 = s\<lparr>currentVolume := clampedVolume\<rparr>
      in case audioRef s1 of
           Some a \<Rightarrow>
             (case set_volume a clampedVolume s1 of
                Inl e \<Rightarrow> Inl e
              | Inr s2 \<Rightarrow> Inr (clampedVolume, s2))
         | None \<Rightarrow> Inr (clampedVolume, s1))"

text \<open>Lines 108-116. \<open>r\<close> is the value \<open>Math.random()\<close> returns, a number in [0, 1).\<close>

definition randomDelay :: "options \<Rightarrow> real \<Rightarrow> real" where
  "randomDelay opts r =
     of_int \<lfloor>r * (maxInterval opts - minInterval opts + 1)\<rfloor> + minInterval opts"

definition scheduleNextPlay :: "options \<Rightarrow> real \<Rightarrow> hook \<Rightarrow> nat \<times> hook" where
  "scheduleNextPlay opts r s = setTimeout (randomDelay opts r) s"

text \<open>Lines 110-115, the callback given to \<open>setTimeout\<close>; \<open>r\<close> is the random number
  drawn for the successor.\<close>

definition timer_callback :: "options \<Rightarrow> real \<Rightarrow> real \<Rightarrow> hook \<Rightarrow> error + hook" where
  "timer_callback opts cv r s =
     (if isActiveRef s
      then (case playSoundEffect opts cv s of
              Inl e \<Rightarrow> Inl e
            | Inr s1 \<Rightarrow>
                (let (h, s2) = scheduleNextPlay opts r s1
                 in Inr (s2\<lparr>intervalRef := Some h\<rparr>)))
      else Inr s)"

text \<open>Lines 100-119.\<close>

definition startRandomPlayback :: "options \<Rightarrow> real \<Rightarrow> hook \<Rightarrow> hook" where
  "startRandomPlayback opts r s =
     (let s1 = (case intervalRef s of
                  Some h \<Rightarrow> (clearInterval h s)\<lparr>intervalRef := None\<rparr>
                | None \<Rightarrow> s);
          (h, s2) = scheduleNextPlay opts r s1
      in s2\<lparr>intervalRef := Some h\<rparr>)"

text \<open>Lines 58-70, the body of the first effect. \<open>volume\<close> is the volume the settings
  give (0 when muted).\<close>

definition effect_body :: "options \<Rightarrow> real \<Rightarrow> real \<Rightarrow> hook \<Rightarrow> error + hook" where
  "effect_body opts volume cv s =
     (let s1 = (if preload opts \<and> audioRef s = None
                then (let (a, s') = new_Audio (soundUrl opts) s in s'\<lparr>audioRef := Some a\<rparr>)
                else s)
      in case (case audioRef s1 of
                 Some a \<Rightarrow>
                   (case set_volume a (clamp01 volume) s1 of
                      Inl e \<Rightarrow> Inl e
                    | Inr s2 \<Rightarrow> Inr (set_preload a ''auto'' s2))
               | None \<Rightarrow> Inr s1) of
           Inl e \<Rightarrow> Inl e
         | Inr s3 \<Rightarrow> (if autoplay opts then playSoundEffect opts cv s3 else Inr s3))"

text \<open>Lines 72-80, the cleanup of the first effect.\<close>

definition effect_cleanup :: "hook \<Rightarrow> hook" where
  "effect_cleanup s =
     (let s1 = stopSoundEffect s;
          s2 = (case intervalRef s1 of
                  Some h \<Rightarrow> (clearInterval h s1)\<lparr>intervalRef := None\<rparr>
                | None \<Rightarrow> s1)
      in s2\<lparr>isActiveRef := False\<rparr>)"

text \<open>Lines 84-98, the second effect and its cleanup.\<close>

definition random_effect_body :: "options \<Rightarrow> real \<Rightarrow> hook \<Rightarrow> hook" where
  "random_effect_body opts r s =
     (if playRandomly opts \<and> isActiveRef s then startRandomPlayback opts r s
      else (case intervalRef s of
              Some h \<Rightarrow>
                (if \<not> playRandomly opts
                 then (clearInterval h s)\<lparr>intervalRef := None\<rparr>
                 else s)
            | None \<Rightarrow> s))"

definition random_effect_cleanup :: "hook \<Rightarrow> hook" where
  "random_effect_cleanup s =
     (case intervalRef s of
        Some h \<Rightarrow> (clearInterval h s)\<lparr>intervalRef := None\<rparr>
      | None \<Rightarrow> s)"

text \<open>Lines 51-55: the refs and the state of a freshly mounted hook, in a browser
  with no element and no timer of this hook yet. Timer handles start at 1.\<close>

definition blank_audio :: audio where
  "blank_audio = \<lparr>el_src = [], el_volume = 1, el_loop = False, el_preload = [],
                  el_paused = True, el_currentTime = 0, el_onended = False\<rparr>"

definition init :: "real \<Rightarrow> hook" where
  "init storeVolume =
     \<lparr>audioRef = None, intervalRef = None, isActiveRef = True, isPlaying = False,
      currentVolume = storeVolume, audios = (\<lambda>_. blank_audio), nextAudio = 0,
      timers = [], nextTimer = 1, console = []\<rparr>"

subsection \<open>The hook as a transition system\<close>

text \<open>
  Everything that can happen to a mounted hook: the two effects and their cleanups,
  the functions the hook returns (\<open>play\<close>, \<open>stop\<close>, \<open>startRandom\<close>, \<open>adjustVolume\<close>),
  and the browser calling back (a timeout fires, an element ends, a play promise
  rejects). An event carries what the environment supplies: the settings' volume,
  the captured \<open>currentVolume\<close> of the closure called, the random number drawn.
\<close>

datatype event =
    Effect real real
  | Cleanup
  | RandomEffect real
  | RandomCleanup
  | Play real
  | Stop
  | StartRandom real
  | AdjustVolume real
  | Fire nat real real
  | Ended nat
  | PlayRejected play_error

text \<open>A timeout that fires is no longer pending when its callback runs: it leaves the
  list as a cleared one does. The listener for \<open>ended\<close> runs only on an element it
  was registered on.\<close>

fun step :: "options \<Rightarrow> event \<Rightarrow> hook \<Rightarrow> error + hook" where
  "step opts (Effect volume cv) s = effect_body opts volume cv s"
| "step opts Cleanup s = Inr (effect_cleanup s)"
| "step opts (RandomEffect r) s = Inr (random_effect_body opts r s)"
| "step opts RandomCleanup s = Inr (random_effect_cleanup s)"
| "step opts (Play cv) s = playSoundEffect opts cv s"
| "step opts Stop s = Inr (stopSoundEffect s)"
| "step opts (StartRandom r) s = Inr (startRandomPlayback opts r s)"
| "step opts (AdjustVolume v) s =
     (case adjustVolume v s of Inl e \<Rightarrow> Inl e | Inr (c, s') \<Rightarrow> Inr s')"
| "step opts (Fire h cv r) s = timer_callback opts cv r (clearInterval h s)"
| "step opts (Ended a) s = Inr (if el_onended (audios s a) then on_ended a s else s)"
| "step opts (PlayRejected err) s = Inr (play_rejected err s)"

text \<open>What the browser guarantees: \<open>Math.random()\<close> is in [0, 1), only a pending
  timeout fires, only an element that exists and is playing ends.\<close>

fun enabled :: "event \<Rightarrow> hook \<Rightarrow> bool" where
  "enabled (RandomEffect r) s = (0 \<le> r \<and> r < 1)"
| "enabled (StartRandom r) s = (0 \<le> r \<and> r < 1)"
| "enabled (Fire h cv r) s = (h \<in> fst ` set (timers s) \<and> 0 \<le> r \<and> r < 1)"
| "enabled (Ended a) s = (a < nextAudio s \<and> \<not> el_paused (audios s a))"
| "enabled e s = True"

inductive reaches :: "options \<Rightarrow> hook \<Rightarrow> hook \<Rightarrow> bool" for opts :: options and s0 :: hook where
  here: "reaches opts s0 s0"
| after: "reaches opts s0 s \<Longrightarrow> enabled e s \<Longrightarrow> step opts e s = Inr s' \<Longrightarrow> reaches opts s0 s'"

section \<open>The user card (src/app/[serverId]/components/SideBar/UserCard.tsx)\<close>

text \<open>
  A JavaScript string is a sequence of UTF-16 code units; \<open>length\<close>, \<open>slice\<close> and
  indexing count code units. A \<^typ>\<open>string\<close> here is that sequence, one \<^typ>\<open>char\<close>
  for each code unit. The stores and the message type are declared outside the
  sources at hand; a message has the fields the component reads.
\<close>

record server_response =
  server_name :: string
  server_id :: string
  expiration :: int
  global_invitation_id :: string
  owner :: string

record server_user =
  userId :: string
  username :: string
  isOnline :: bool
  lastSeen :: int
  bgColor :: string
  textColor :: string

record message =
  senderId :: string
  receiverId :: string
  content :: string
  readByReceiver :: bool
  attachmentUrl :: "string option"

text \<open>\<open>xs.filter(Boolean)\<close> on an array of objects and nulls, and \<open>xs.pop()\<close>, whose
  result is \<open>undefined\<close> on an empty array.\<close>

fun filter_Boolean :: "'a option list \<Rightarrow> 'a list" where
  "filter_Boolean [] = []"
| "filter_Boolean (None # xs) = filter_Boolean xs"
| "filter_Boolean (Some x # xs) = x # filter_Boolean xs"

definition pop :: "'a list \<Rightarrow> 'a option" where
  "pop xs = (if xs = [] then None else Some (last xs))"

text \<open>Lines 41-46.\<close>

definition lastMessage :: "message list \<Rightarrow> string \<Rightarrow> message option" where
  "lastMessage messages uid =
     pop (filter_Boolean
            (map (\<lambda>m. if receiverId m = uid \<or> senderId m = uid then Some m else None)
               messages))"

text \<open>\<open>String.prototype.slice(lo, hi)\<close>: a negative index counts from the end, both
  are clamped to the string, and the result is empty when they cross.\<close>

definition slice :: "int \<Rightarrow> int \<Rightarrow> 'a list \<Rightarrow> 'a list" where
  "slice lo hi s =
     (let len = int (length s);
          k = (if lo < 0 then max (len + lo) 0 else min lo len);
          final = (if hi < 0 then max (len + hi) 0 else min hi len)
      in take (nat (final - k)) (drop (nat k) s))"

text \<open>Line 79, the text of the card's second line.\<close>

definition subtitle :: "server_response \<Rightarrow> message list \<Rightarrow> string list \<Rightarrow> string \<Rightarrow> string" where
  "subtitle srv messages typingUsers uid =
     (if uid \<in> set typingUsers then ''Typing...''
      else (case lastMessage messages uid of
              Some m \<Rightarrow>
                (if senderId m = owner srv then ''You: '' else [])
                @ (if length (content m) > 20
                   then slice 0 20 (content m) @ ''...''
                   else content m)
            | None \<Rightarrow> ''No messages yet.''))"

text \<open>Line 72: \<open>username[0]\<close> is \<open>undefined\<close> for the empty string, and calling a method
  on it throws a \<open>TypeError\<close>. The case mapping of \<open>toUpperCase\<close> is the platform's and
  is an argument.\<close>

definition avatarInitial :: "(string \<Rightarrow> string) \<Rightarrow> string \<Rightarrow> error + string" where
  "avatarInitial toUpperCase uname =
     (case uname of
        [] \<Rightarrow> Inl TypeError
      | c # _ \<Rightarrow> Inr (toUpperCase [c]))"

text \<open>What the component renders (lines 39 and 56-89), without the styling: nothing
  when there is no server, otherwise the initial, the name, the online mark, the
  second line and whether the paperclip shows.\<close>

record view =
  v_initial :: string
  v_name :: string
  v_online :: bool
  v_subtitle :: string
  v_paperclip :: bool

definition UserCard ::
  "(string \<Rightarrow> string) \<Rightarrow> server_response option \<Rightarrow> message list \<Rightarrow> string list
     \<Rightarrow> server_user \<Rightarrow> error + view option" where
  "UserCard toUpperCase server messages typingUsers props =
     (case server of
        None \<Rightarrow> Inr None
      | Some srv \<Rightarrow>
          (case avatarInitial toUpperCase (username props) of
             Inl e \<Rightarrow> Inl e
           | Inr i \<Rightarrow>
               Inr (Some \<lparr>v_initial = i, v_name = username props, v_online = isOnline props,
                          v_subtitle = subtitle srv messages typingUsers (userId props),
                          v_paperclip =
                            (case lastMessage messages (userId props) of
                               Some m \<Rightarrow> (case attachmentUrl m of Some u \<Rightarrow> u \<noteq> [] | None \<Rightarrow> False)
                             | None \<Rightarrow> False)\<rparr>)))"

text \<open>Lines 22-29: the two hooks of the card are made with \<open>preload: true\<close> and the
  defaults for the rest.\<close>

definition pressOptions :: options where
  "pressOptions = \<lparr>soundUrl = ''/audio/press.mp3'', preload = True, loop = False,
                    playRandomly = False, minInterval = 5000, maxInterval = 15000,
                    autoplay = False\<rparr>"

definition openOptions :: options where
  "openOptions = \<lparr>soundUrl = ''/audio/open.mp3'', preload = True, loop = False,
                   playRandomly = False, minInterval = 5000, maxInterval = 15000,
                   autoplay = False\<rparr>"

text \<open>Lines 48-54. The state a click acts on is the two hooks and the store; the
  store's \<open>setCurrentlyChatting\<close> is an argument. The handler is made anew at every
  render, so the \<open>play\<close> it calls has captured the hook's present \<open>currentVolume\<close>.\<close>

record 'st card =
  playPressSound :: hook
  playOpenSound :: hook
  store :: 'st

definition handleSetCurrentlyChatting ::
  "(server_user \<Rightarrow> 'st \<Rightarrow> 'st) \<Rightarrow> server_user list \<Rightarrow> string \<Rightarrow> 'st card \<Rightarrow> error + 'st card" where
  "handleSetCurrentlyChatting setCurrentlyChatting activeUsers uid c =
     (case playSoundEffect pressOptions (currentVolume (playPressSound c)) (playPressSound c) of
        Inl e \<Rightarrow> Inl e
      | Inr p \<Rightarrow>
          (case find (\<lambda>user. userId user = uid) activeUsers of
             None \<Rightarrow> Inr (c\<lparr>playPressSound := p\<rparr>)
           | Some user \<Rightarrow>
               (case playSoundEffect openOptions (currentVolume (playOpenSound c)) (playOpenSound c) of
                  Inl e \<Rightarrow> Inl e
                | Inr q \<Rightarrow>
                    Inr (c\<lparr>playPressSound := p, playOpenSound := q,
                           store := setCurrentlyChatting user (store c)\<rparr>))))"

section \<open>Invariants and example states\<close>

text \<open>Three facts that hold in every state a mounted hook can reach: the playing flag
  is set only while an element is referenced; a pending timeout is the one
  \<open>intervalRef\<close> holds; the delay of a pending timeout is within the two intervals
  (the last for intervals a whole number apart).\<close>

definition playing_has_audio :: "hook \<Rightarrow> bool" where
  "playing_has_audio s = (isPlaying s \<longrightarrow> audioRef s \<noteq> None)"

definition pending_is_latest :: "hook \<Rightarrow> bool" where
  "pending_is_latest s = (\<forall>t \<in> set (timers s). intervalRef s = Some (fst t))"

definition delays_within :: "options \<Rightarrow> hook \<Rightarrow> bool" where
  "delays_within opts s =
     (\<forall>t \<in> set (timers s). minInterval opts \<le> snd t \<and> snd t \<le> maxInterval opts)"

text \<open>A hook that replays at random every 5 to 15 seconds, its state once
  \<open>startRandom\<close> has been called with \<open>Math.random()\<close> giving 1/2, the state after a
  teardown and a second \<open>startRandom\<close>; the same with a \<open>play\<close> before the teardown, so
  that an element is sounding when the teardown runs; and options whose intervals
  are half a millisecond apart.\<close>

definition demo :: options where
  "demo = \<lparr>soundUrl = ''/audio/ping.mp3'', preload = True, loop = False, playRandomly = True,
            minInterval = 5000, maxInterval = 15000, autoplay = False\<rparr>"

definition demo_started :: hook where
  "demo_started = startRandomPlayback demo (1 / 2) (init 1)"

definition demo_restarted :: hook where
  "demo_restarted = startRandomPlayback demo (1 / 2) (effect_cleanup demo_started)"

definition demo_playing :: hook where
  "demo_playing = (case playSoundEffect demo 1 demo_started of Inr s \<Rightarrow> s | Inl e \<Rightarrow> demo_started)"

definition demo_replayed :: hook where
  "demo_replayed = startRandomPlayback demo (1 / 2) (effect_cleanup demo_playing)"

definition fractional :: options where
  "fractional = \<lparr>soundUrl = ''/audio/ping.mp3'', preload = True, loop = False,
                  playRandomly = True, minInterval = 0, maxInterval = 1 / 2, autoplay = False\<rparr>"

text \<open>For the card: a case mapping that covers the ASCII letters, a server owned by
  \<open>me\<close>, a short message the owner sent to \<open>u1\<close>, a long one \<open>u1\<close> sent back, the user
  \<open>u1\<close>, and a card just mounted over a store that holds whom the owner chats with.\<close>

definition ascii_upper :: "string \<Rightarrow> string" where
  "ascii_upper s =
     map (\<lambda>c. case map_of (zip ''abcdefghijklmnopqrstuvwxyz'' ''ABCDEFGHIJKLMNOPQRSTUVWXYZ'') c of
              Some u \<Rightarrow> u
            | None \<Rightarrow> c) s"

definition chat :: server_response where
  "chat = \<lparr>server_name = ''lobby'', server_id = ''s1'', expiration = 0,
           global_invitation_id = ''g1'', owner = ''me''\<rparr>"

definition hi_from_me :: message where
  "hi_from_me = \<lparr>senderId = ''me'', receiverId = ''u1'', content = ''hi'',
                 readByReceiver = False, attachmentUrl = None\<rparr>"

definition long_from_u1 :: message where
  "long_from_u1 = \<lparr>senderId = ''u1'', receiverId = ''me'',
                   content = ''abcdefghijklmnopqrstuvwxyz'',
                   readByReceiver = False, attachmentUrl = None\<rparr>"

definition alice :: server_user where
  "alice = \<lparr>userId = ''u1'', username = ''alice'', isOnline = True, lastSeen = 0,
            bgColor = ''#000'', textColor = ''#fff''\<rparr>"

definition fresh_card :: "server_user option card" where
  "fresh_card = \<lparr>playPressSound = init 1, playOpenSound = init 1, store = None\<rparr>"

section \<open>Properties of the hook\<close>

subsection \<open>No callback throws\<close>

lemma clamp01_range: "0 \<le> clamp01 v \<and> clamp01 v \<le> 1"
  by (simp add: clamp01_def)

lemmas browser_defs = new_Audio_def set_volume_def pause_def set_currentTime_def set_loop_def
  set_preload_def play_audio_def addEventListener_ended_def setTimeout_def clearInterval_def

lemma playSoundEffect_total: "\<exists>s'. playSoundEffect opts cv s = Inr s'"
  by (simp add: playSoundEffect_def browser_defs clamp01_range Let_def split: option.split)

lemma playSoundEffect_fields:
  assumes "playSoundEffect opts cv s = Inr s'"
  shows "audioRef s' = Some (nextAudio s)" and "isPlaying s'" and "timers s' = timers s"
    and "intervalRef s' = intervalRef s" and "isActiveRef s' = isActiveRef s"
    and "currentVolume s' = currentVolume s" and "nextTimer s' = nextTimer s"
    and "console s' = console s" and "nextAudio s' = Suc (nextAudio s)"
  using assms
  by (auto simp: playSoundEffect_def browser_defs clamp01_range Let_def split: option.splits if_splits)

lemma playSoundEffect_element:
  assumes "playSoundEffect opts cv s = Inr s'"
  shows "\<not> el_paused (audios s' (nextAudio s))"
    and "el_volume (audios s' (nextAudio s)) = clamp01 cv"
    and "el_src (audios s' (nextAudio s)) = soundUrl opts"
  using assms
  by (auto simp: playSoundEffect_def browser_defs clamp01_range Let_def
      split: option.splits if_splits)

lemma adjustVolume_total: "\<exists>s'. adjustVolume v s = Inr (clamp01 v, s')"
  by (simp add: adjustVolume_def browser_defs clamp01_range Let_def split: option.split)

lemma effect_body_total: "\<exists>s'. effect_body opts volume cv s = Inr s'"
  using playSoundEffect_total
  by (simp add: effect_body_def browser_defs clamp01_range Let_def split: option.split)

lemma timer_callback_total: "\<exists>s'. timer_callback opts cv r s = Inr s'"
proof (cases "isActiveRef s")
  case True
  obtain s1 where "playSoundEffect opts cv s = Inr s1"
    using playSoundEffect_total by blast
  with True show ?thesis
    by (simp add: timer_callback_def scheduleNextPlay_def setTimeout_def)
next
  case False
  then show ?thesis by (simp add: timer_callback_def)
qed

lemma step_total: "\<exists>s'. step opts e s = Inr s'"
proof (cases e)
  case (AdjustVolume v)
  obtain s' where "adjustVolume v s = Inr (clamp01 v, s')"
    using adjustVolume_total by blast
  with AdjustVolume show ?thesis by simp
qed (simp_all add: playSoundEffect_total effect_body_total timer_callback_total)

subsection \<open>The random delay\<close>

lemma randomDelay_bounds:
  assumes le: "minInterval opts \<le> maxInterval opts"
    and whole: "maxInterval opts - minInterval opts \<in> \<int>"
    and r: "0 \<le> r" "r < 1"
  shows "minInterval opts \<le> randomDelay opts r" and "randomDelay opts r \<le> maxInterval opts"
proof -
  obtain k :: int where k: "maxInterval opts - minInterval opts = of_int k"
    using whole by (auto elim: Ints_cases)
  let ?x = "r * (maxInterval opts - minInterval opts + 1)"
  have pos: "0 \<le> ?x" using le r by simp
  then have "0 \<le> \<lfloor>?x\<rfloor>" by simp
  then show "minInterval opts \<le> randomDelay opts r"
    by (simp add: randomDelay_def)
  have "0 < maxInterval opts - minInterval opts + 1" using le by simp
  then have "?x < maxInterval opts - minInterval opts + 1"
    using r by (simp add: mult_less_cancel_right2)
  then have "?x < of_int (k + 1)" using k by simp
  then have "\<lfloor>?x\<rfloor> < k + 1" by (simp only: floor_less_iff)
  then have "\<lfloor>?x\<rfloor> \<le> k" by simp
  then have "of_int \<lfloor>?x\<rfloor> \<le> (of_int k :: real)" by (simp only: of_int_le_iff)
  then show "randomDelay opts r \<le> maxInterval opts"
    using k by (simp add: randomDelay_def)
qed

text \<open>The condition on the intervals cannot be dropped: whenever they are not a whole
  number apart, some value of \<open>Math.random()\<close> gives a delay above the maximum.\<close>

lemma randomDelay_overshoots:
  assumes le: "minInterval opts \<le> maxInterval opts"
    and frac: "maxInterval opts - minInterval opts \<notin> \<int>"
  shows "\<exists>r. 0 \<le> r \<and> r < 1 \<and> maxInterval opts < randomDelay opts r"
proof -
  let ?d = "maxInterval opts - minInterval opts"
  let ?r = "of_int \<lceil>?d\<rceil> / (?d + 1)"
  have d0: "0 \<le> ?d" using le by simp
  have above: "?d < of_int \<lceil>?d\<rceil>"
    using frac by (metis Ints_of_int le_of_int_ceiling order_le_less)
  have below: "of_int \<lceil>?d\<rceil> < ?d + 1"
    by linarith
  have "0 \<le> ?r" using d0 above by simp
  moreover have "?r < 1" using d0 below by simp
  moreover have "?r * (?d + 1) = of_int \<lceil>?d\<rceil>" using d0 by simp
  then have "randomDelay opts ?r = of_int \<lceil>?d\<rceil> + minInterval opts"
    by (simp only: randomDelay_def floor_of_int)
  with above have "maxInterval opts < randomDelay opts ?r" by simp
  ultimately show ?thesis by blast
qed

subsection \<open>What each callback changes\<close>

lemma stopSoundEffect_fields:
  "audioRef (stopSoundEffect s) = None"
  "intervalRef (stopSoundEffect s) = intervalRef s"
  "timers (stopSoundEffect s) = timers s"
  "isActiveRef (stopSoundEffect s) = isActiveRef s"
  "isPlaying (stopSoundEffect s) = (isPlaying s \<and> audioRef s = None)"
  by (auto simp: stopSoundEffect_def browser_defs Let_def split: option.splits)

lemma step_playing_has_audio:
  assumes "playing_has_audio s" and "step opts e s = Inr s'"
  shows "playing_has_audio s'"
proof (cases e)
  case (Effect volume cv)
  with assms show ?thesis
    by (auto simp: playing_has_audio_def effect_body_def browser_defs Let_def
        dest: playSoundEffect_fields(1) split: option.splits if_splits sum.splits)
next
  case (Play cv)
  with assms show ?thesis
    by (auto simp: playing_has_audio_def dest: playSoundEffect_fields(1))
next
  case (Fire h cv r)
  with assms show ?thesis
    by (auto simp: playing_has_audio_def timer_callback_def scheduleNextPlay_def browser_defs
        dest: playSoundEffect_fields(1) split: if_splits sum.splits)
next
  case (AdjustVolume v)
  with assms show ?thesis
    by (auto simp: playing_has_audio_def adjustVolume_def browser_defs Let_def
        split: option.splits if_splits sum.splits)
qed (use assms in \<open>auto simp: playing_has_audio_def effect_cleanup_def stopSoundEffect_fields
      random_effect_body_def random_effect_cleanup_def startRandomPlayback_def
      scheduleNextPlay_def on_ended_def play_rejected_def browser_defs Let_def
      split: option.splits if_splits\<close>)

lemma step_inactive:
  assumes "\<not> isActiveRef s" and "step opts e s = Inr s'"
  shows "\<not> isActiveRef s'"
proof (cases e)
  case (Effect volume cv)
  with assms show ?thesis
    by (auto simp: effect_body_def browser_defs Let_def
        dest: playSoundEffect_fields(5) split: option.splits if_splits sum.splits)
next
  case (Play cv)
  with assms show ?thesis
    by (auto dest: playSoundEffect_fields(5))
next
  case (Fire h cv r)
  with assms show ?thesis
    by (auto simp: timer_callback_def clearInterval_def)
next
  case (AdjustVolume v)
  with assms show ?thesis
    by (auto simp: adjustVolume_def browser_defs Let_def
        split: option.splits if_splits sum.splits)
qed (use assms in \<open>auto simp: effect_cleanup_def stopSoundEffect_fields
      random_effect_body_def random_effect_cleanup_def startRandomPlayback_def
      scheduleNextPlay_def on_ended_def play_rejected_def browser_defs Let_def
      split: option.splits if_splits\<close>)

lemma effect_body_fields:
  assumes "effect_body opts volume cv s = Inr s'"
  shows "timers s' = timers s" and "intervalRef s' = intervalRef s"
  using assms
  by (auto simp: effect_body_def browser_defs Let_def
      dest: playSoundEffect_fields(3,4) split: option.splits if_splits sum.splits)

lemma adjustVolume_fields:
  assumes "adjustVolume v s = Inr (c, s')"
  shows "timers s' = timers s" and "intervalRef s' = intervalRef s"
  using assms
  by (auto simp: adjustVolume_def browser_defs Let_def split: option.splits if_splits sum.splits)

lemma startRandomPlayback_timers:
  assumes "pending_is_latest s"
  shows "timers (startRandomPlayback opts r s) = [(nextTimer s, randomDelay opts r)]"
    and "intervalRef (startRandomPlayback opts r s) = Some (nextTimer s)"
proof -
  have "filter (\<lambda>t. fst t \<noteq> h) (timers s) = []" if "intervalRef s = Some h" for h
    using assms that by (auto simp: pending_is_latest_def filter_empty_conv)
  moreover have "timers s = []" if "intervalRef s = None"
    using assms that by (cases "timers s") (auto simp: pending_is_latest_def)
  ultimately show "timers (startRandomPlayback opts r s) = [(nextTimer s, randomDelay opts r)]"
    by (auto simp: startRandomPlayback_def scheduleNextPlay_def browser_defs split: option.splits)
  show "intervalRef (startRandomPlayback opts r s) = Some (nextTimer s)"
    by (auto simp: startRandomPlayback_def scheduleNextPlay_def browser_defs split: option.splits)
qed

lemma clear_latest:
  assumes "pending_is_latest s" and "intervalRef s = Some h"
  shows "timers (clearInterval h s) = []"
  using assms by (auto simp: pending_is_latest_def clearInterval_def filter_empty_conv)

lemma no_latest_no_pending:
  assumes "pending_is_latest s" and "intervalRef s = None"
  shows "timers s = []"
  using assms by (cases "timers s") (auto simp: pending_is_latest_def)

lemma fired_leaves_none:
  assumes "pending_is_latest s" and "h \<in> fst ` set (timers s)"
  shows "timers (clearInterval h s) = []"
proof -
  from assms have "intervalRef s = Some h"
    by (auto simp: pending_is_latest_def)
  with assms(1) show ?thesis by (rule clear_latest)
qed

lemma timer_callback_timers:
  assumes "timer_callback opts cv r s = Inr s'"
  shows "timers s' = (if isActiveRef s then timers s @ [(nextTimer s, randomDelay opts r)] else timers s)"
    and "isActiveRef s \<Longrightarrow> intervalRef s' = Some (nextTimer s)"
    and "\<not> isActiveRef s \<Longrightarrow> s' = s"
  using assms
  by (auto simp: timer_callback_def scheduleNextPlay_def setTimeout_def
      dest: playSoundEffect_fields(3,7) split: if_splits sum.splits)

lemma effect_cleanup_fields:
  "audioRef (effect_cleanup s) = None"
  "intervalRef (effect_cleanup s) = None"
  "\<not> isActiveRef (effect_cleanup s)"
  "isPlaying (effect_cleanup s) = (isPlaying s \<and> audioRef s = None)"
  by (auto simp: effect_cleanup_def Let_def stopSoundEffect_fields clearInterval_def
      split: option.splits)

lemma effect_cleanup_timers:
  assumes "pending_is_latest s"
  shows "timers (effect_cleanup s) = []"
proof -
  have p: "pending_is_latest (stopSoundEffect s)"
    using assms by (simp add: pending_is_latest_def stopSoundEffect_fields)
  show ?thesis
  proof (cases "intervalRef (stopSoundEffect s)")
    case None
    with no_latest_no_pending[OF p] show ?thesis
      by (simp add: effect_cleanup_def Let_def)
  next
    case (Some h)
    with clear_latest[OF p] show ?thesis
      by (simp add: effect_cleanup_def Let_def)
  qed
qed

lemma stopSoundEffect_element:
  assumes "audioRef s = Some a"
  shows "el_paused (audios (stopSoundEffect s) a)"
    and "el_currentTime (audios (stopSoundEffect s) a) = 0"
    and "b \<noteq> a \<Longrightarrow> audios (stopSoundEffect s) b = audios s b"
  using assms by (simp_all add: stopSoundEffect_def pause_def set_currentTime_def Let_def)

lemma effect_cleanup_audios: "audios (effect_cleanup s) = audios (stopSoundEffect s)"
  by (simp add: effect_cleanup_def Let_def clearInterval_def split: option.splits)

lemma effect_cleanup_nextTimer: "nextTimer (effect_cleanup s) = nextTimer s"
  by (simp add: effect_cleanup_def stopSoundEffect_def pause_def set_currentTime_def Let_def
      clearInterval_def split: option.splits)

lemma step_pending_is_latest:
  assumes "pending_is_latest s" and "enabled e s" and "step opts e s = Inr s'"
  shows "pending_is_latest s'"
proof (cases e)
  case (Effect volume cv)
  with assms(3) have "effect_body opts volume cv s = Inr s'" by simp
  from effect_body_fields[OF this] assms(1) show ?thesis
    by (simp add: pending_is_latest_def)
next
  case (Play cv)
  with assms(3) have "playSoundEffect opts cv s = Inr s'" by simp
  from playSoundEffect_fields(3,4)[OF this] assms(1) show ?thesis
    by (simp add: pending_is_latest_def)
next
  case (Fire h cv r)
  with assms have none: "timers (clearInterval h s) = []"
    using fired_leaves_none by simp
  from Fire assms(3) have "timer_callback opts cv r (clearInterval h s) = Inr s'" by simp
  from timer_callback_timers(1,2)[OF this] none show ?thesis
    by (auto simp: pending_is_latest_def split: if_splits)
next
  case (AdjustVolume v)
  with assms(3) obtain c where "adjustVolume v s = Inr (c, s')"
    by (auto split: sum.splits)
  from adjustVolume_fields[OF this] assms(1) show ?thesis
    by (simp add: pending_is_latest_def)
next
  case (StartRandom r)
  with assms show ?thesis
    using startRandomPlayback_timers[OF assms(1), of opts r]
    by (auto simp: pending_is_latest_def)
next
  case (RandomEffect r)
  with assms show ?thesis
    using startRandomPlayback_timers[OF assms(1), of opts r] clear_latest[OF assms(1)]
    by (auto simp: pending_is_latest_def random_effect_body_def split: option.splits if_splits)
next
  case Cleanup
  with assms(3) effect_cleanup_timers[OF assms(1)] show ?thesis
    by (auto simp: pending_is_latest_def)
next
  case RandomCleanup
  with assms clear_latest[OF assms(1)] show ?thesis
    by (auto simp: pending_is_latest_def random_effect_cleanup_def split: option.splits)
next
  case Stop
  with assms show ?thesis
    by (auto simp: pending_is_latest_def stopSoundEffect_fields)
next
  case (Ended a)
  with assms show ?thesis
    by (auto simp: pending_is_latest_def on_ended_def split: if_splits)
next
  case (PlayRejected err)
  with assms show ?thesis
    by (auto simp: pending_is_latest_def play_rejected_def)
qed

lemma startRandomPlayback_fields:
  "isActiveRef (startRandomPlayback opts r s) = isActiveRef s"
  "nextTimer (startRandomPlayback opts r s) = Suc (nextTimer s)"
  "audioRef (startRandomPlayback opts r s) = audioRef s"
  "isPlaying (startRandomPlayback opts r s) = isPlaying s"
  by (simp_all add: startRandomPlayback_def scheduleNextPlay_def setTimeout_def clearInterval_def
      Let_def split: option.splits)


subsection \<open>Reachable states\<close>

lemma step_delays_within:
  assumes le: "minInterval opts \<le> maxInterval opts"
    and whole: "maxInterval opts - minInterval opts \<in> \<int>"
    and inv: "delays_within opts s" and en: "enabled e s" and st: "step opts e s = Inr s'"
  shows "delays_within opts s'"
proof -
  have new: "minInterval opts \<le> randomDelay opts r \<and> randomDelay opts r \<le> maxInterval opts"
    if "0 \<le> r" "r < 1" for r
    using randomDelay_bounds[OF le whole that] by simp
  have sub: "delays_within opts t" if "set (timers t) \<subseteq> set (timers s)" for t
    using inv that by (auto simp: delays_within_def)
  show ?thesis
  proof (cases e)
    case (Effect volume cv)
    with st have "effect_body opts volume cv s = Inr s'" by simp
    from effect_body_fields(1)[OF this] show ?thesis by (simp add: sub)
  next
    case (Play cv)
    with st have "playSoundEffect opts cv s = Inr s'" by simp
    from playSoundEffect_fields(3)[OF this] show ?thesis by (simp add: sub)
  next
    case (AdjustVolume v)
    with st obtain c where "adjustVolume v s = Inr (c, s')"
      by (auto split: sum.splits)
    from adjustVolume_fields(1)[OF this] show ?thesis by (simp add: sub)
  next
    case (Fire h cv r)
    with st have "timer_callback opts cv r (clearInterval h s) = Inr s'" by simp
    from timer_callback_timers(1)[OF this] inv new[of r] en Fire show ?thesis
      by (auto simp: delays_within_def clearInterval_def split: if_splits)
  next
    case (StartRandom r)
    with st inv new[of r] en show ?thesis
      by (auto simp: delays_within_def startRandomPlayback_def scheduleNextPlay_def
          setTimeout_def clearInterval_def split: option.splits)
  next
    case (RandomEffect r)
    with st inv new[of r] en show ?thesis
      by (auto simp: delays_within_def random_effect_body_def startRandomPlayback_def
          scheduleNextPlay_def setTimeout_def clearInterval_def split: option.splits if_splits)
  next
    case Cleanup
    with st inv show ?thesis
      by (auto simp: delays_within_def effect_cleanup_def Let_def stopSoundEffect_fields
          clearInterval_def split: option.splits)
  next
    case RandomCleanup
    with st inv show ?thesis
      by (auto simp: delays_within_def random_effect_cleanup_def clearInterval_def
          split: option.splits)
  next
    case Stop
    with st show ?thesis by (auto simp: sub stopSoundEffect_fields)
  next
    case (Ended a)
    with st show ?thesis by (auto simp: sub on_ended_def split: if_splits)
  next
    case (PlayRejected err)
    with st show ?thesis by (auto simp: sub play_rejected_def)
  qed
qed

lemma reaches_playing_has_audio:
  assumes "reaches opts s0 s" and "playing_has_audio s0"
  shows "playing_has_audio s"
  using assms by (induction rule: reaches.induct) (auto intro: step_playing_has_audio)

lemma reaches_pending_is_latest:
  assumes "reaches opts s0 s" and "pending_is_latest s0"
  shows "pending_is_latest s"
  using assms by (induction rule: reaches.induct) (auto intro: step_pending_is_latest)

lemma reaches_inactive:
  assumes "reaches opts s0 s" and "\<not> isActiveRef s0"
  shows "\<not> isActiveRef s"
  using assms by (induction rule: reaches.induct) (auto dest: step_inactive)

lemma reaches_delays_within:
  assumes "reaches opts s0 s" and "delays_within opts s0"
    and "minInterval opts \<le> maxInterval opts"
    and "maxInterval opts - minInterval opts \<in> \<int>"
  shows "delays_within opts s"
  using assms by (induction rule: reaches.induct) (auto intro: step_delays_within)

lemma init_invariants:
  "playing_has_audio (init v)" "pending_is_latest (init v)" "delays_within opts (init v)"
  by (simp_all add: init_def playing_has_audio_def pending_is_latest_def delays_within_def)

lemma reaches_one:
  assumes "enabled e s0" and "step opts e s0 = Inr s"
  shows "reaches opts s0 s"
  using reaches.here assms by (rule reaches.after)

lemma randomDelay_demo: "randomDelay demo (1 / 2) = 10000"
proof -
  have "\<lfloor>(10001::real) / 2\<rfloor> = 5000"
    by (simp add: floor_eq_iff)
  then show ?thesis by (simp add: randomDelay_def demo_def)
qed

lemma demo_started_fields:
  "timers demo_started = [(1, 10000)]" "intervalRef demo_started = Some 1"
  "isActiveRef demo_started" "nextTimer demo_started = 2"
  by (simp_all add: demo_started_def startRandomPlayback_def scheduleNextPlay_def
      setTimeout_def init_def randomDelay_demo)

lemma demo_started_reached: "reaches demo (init 1) demo_started"
  by (rule reaches_one [where e = "StartRandom (1 / 2)"]) (simp_all add: demo_started_def)

lemma demo_restarted_fields:
  "timers demo_restarted = [(2, 10000)]" "\<not> isActiveRef demo_restarted"
proof -
  have "pending_is_latest demo_started"
    using demo_started_reached init_invariants(2) by (rule reaches_pending_is_latest)
  then have "timers (effect_cleanup demo_started) = []"
    by (rule effect_cleanup_timers)
  moreover have "nextTimer (effect_cleanup demo_started) = 2"
    by (simp add: effect_cleanup_def Let_def stopSoundEffect_def demo_started_def
        startRandomPlayback_def scheduleNextPlay_def setTimeout_def clearInterval_def init_def)
  ultimately show "timers demo_restarted = [(2, 10000)]"
    by (simp add: demo_restarted_def startRandomPlayback_def scheduleNextPlay_def
        setTimeout_def clearInterval_def effect_cleanup_fields randomDelay_demo
        split: option.splits)
  show "\<not> isActiveRef demo_restarted"
    by (simp add: demo_restarted_def startRandomPlayback_fields effect_cleanup_fields)
qed

lemma demo_restarted_from_mount: "reaches demo (init 1) demo_restarted"
proof -
  have "reaches demo (init 1) (effect_cleanup demo_started)"
    using demo_started_reached by (rule reaches.after [where e = Cleanup]) simp_all
  then show ?thesis
    by (rule reaches.after [where e = "StartRandom (1 / 2)"]) (simp_all add: demo_restarted_def)
qed

lemma demo_restarted_reached: "reaches demo (effect_cleanup demo_started) demo_restarted"
  by (rule reaches_one [where e = "StartRandom (1 / 2)"]) (simp_all add: demo_restarted_def)

lemma demo_playing_step: "playSoundEffect demo 1 demo_started = Inr demo_playing"
proof -
  obtain p where "playSoundEffect demo 1 demo_started = Inr p"
    using playSoundEffect_total by blast
  then show ?thesis by (simp add: demo_playing_def)
qed

lemma demo_playing_fields:
  "audioRef demo_playing = Some 0" "isPlaying demo_playing"
  "\<not> el_paused (audios demo_playing 0)" "timers demo_playing = [(1, 10000)]"
  "nextTimer demo_playing = 2"
proof -
  note p = demo_playing_step
  have n: "nextAudio demo_started = 0"
    by (simp add: demo_started_def startRandomPlayback_def scheduleNextPlay_def setTimeout_def
        init_def)
  from playSoundEffect_fields(1) [OF p] n show "audioRef demo_playing = Some 0" by simp
  from playSoundEffect_fields(2) [OF p] show "isPlaying demo_playing" .
  from playSoundEffect_element(1) [OF p] n show "\<not> el_paused (audios demo_playing 0)" by simp
  from playSoundEffect_fields(3) [OF p] show "timers demo_playing = [(1, 10000)]"
    by (simp add: demo_started_fields)
  from playSoundEffect_fields(7) [OF p] show "nextTimer demo_playing = 2"
    by (simp add: demo_started_fields)
qed

lemma demo_playing_reached: "reaches demo (init 1) demo_playing"
  using demo_started_reached by (rule reaches.after [where e = "Play 1"]) (simp_all add: demo_playing_step)

lemma demo_replayed_reached: "reaches demo (effect_cleanup demo_playing) demo_replayed"
  by (rule reaches_one [where e = "StartRandom (1 / 2)"]) (simp_all add: demo_replayed_def)

lemma demo_replayed_timers: "timers demo_replayed = [(2, 10000)]"
proof -
  have "pending_is_latest demo_playing"
    using demo_playing_reached init_invariants(2) by (rule reaches_pending_is_latest)
  then have "timers (effect_cleanup demo_playing) = []"
    by (rule effect_cleanup_timers)
  then have "pending_is_latest (effect_cleanup demo_playing)"
    by (simp add: pending_is_latest_def)
  from startRandomPlayback_timers(1) [OF this, of demo "1 / 2"] show ?thesis
    by (simp add: demo_replayed_def effect_cleanup_nextTimer demo_playing_fields randomDelay_demo)
qed

subsection \<open>Volume\<close>



subsection \<open>Stopping\<close>

text \<open>C4. Stopping twice is stopping once: neither call throws, and the second finds no
  element and changes nothing, as any call does on a hook whose \<open>audioRef\<close> is null.
  In every state a mounted hook can reach, the playing flag is off after the two
  calls.\<close>

theorem stop_twice:
  "stopSoundEffect (stopSoundEffect s) = stopSoundEffect s
     \<and> step opts Stop s = Inr (stopSoundEffect s)
     \<and> step opts Stop (stopSoundEffect s) = Inr (stopSoundEffect s)
     \<and> audioRef (stopSoundEffect s) = None
     \<and> (audioRef s = None \<longrightarrow> stopSoundEffect s = s)
     \<and> (reaches opts (init v) s \<longrightarrow> \<not> isPlaying (stopSoundEffect (stopSoundEffect s)))"
proof -
  have none: "audioRef (stopSoundEffect s) = None"
    by (rule stopSoundEffect_fields(1))
  have fixed: "stopSoundEffect t = t" if "audioRef t = None" for t
    using that by (simp add: stopSoundEffect_def)
  have twice: "stopSoundEffect (stopSoundEffect s) = stopSoundEffect s"
    using none by (rule fixed)
  have "\<not> isPlaying (stopSoundEffect s)" if "reaches opts (init v) s"
  proof -
    have "playing_has_audio s"
      using that init_invariants(1) by (rule reaches_playing_has_audio)
    then show ?thesis
      by (auto simp: stopSoundEffect_fields(5) playing_has_audio_def)
  qed
  with none fixed twice show ?thesis by simp
qed

theorem stop_twice_witness:
  "\<exists>s. step demo (Play 1) (init 1) = Inr s \<and> isPlaying s
      \<and> \<not> isPlaying (stopSoundEffect (stopSoundEffect s))
      \<and> stopSoundEffect (stopSoundEffect (init 1)) = init 1"
proof -
  obtain s where s: "step demo (Play 1) (init 1) = Inr s"
    using step_total by blast
  have "reaches demo (init 1) s"
    using s by (rule reaches_one [rotated]) simp
  moreover have "isPlaying s"
    using s by (auto dest: playSoundEffect_fields(2))
  moreover have "audioRef (init 1) = None"
    by (simp add: init_def)
  ultimately show ?thesis
    using s stop_twice [of s demo 1] stop_twice [of "init 1" demo 1] by auto
qed

subsection \<open>A rejected play\<close>

text \<open>C6. \<open>playSoundEffect\<close> returns normally. When the promise of \<open>audio.play()\<close>
  rejects, in whatever state \<open>t\<close> the hook is by then, the handler logs the error and
  turns the playing flag off; it throws nothing and every other part of the state
  stays as it was.\<close>

theorem play_failure_contained:
  "\<exists>s1. playSoundEffect opts cv s = Inr s1
     \<and> step opts (PlayRejected err) t =
         Inr (t\<lparr>console := console t @ [(''Error playing sound effect:'', err)],
               isPlaying := False\<rparr>)"
  using playSoundEffect_total [of opts cv s] by (auto simp: play_rejected_def)

subsection \<open>Teardown\<close>

text \<open>C7. After the cleanup of the first effect, run in any state a mounted hook can
  reach, the audio is stopped: no element is referenced, the playing flag is off,
  and the element that was referenced is paused and back at time 0. No timeout is
  pending, \<open>intervalRef\<close> is null and the hook is inactive. It stays inactive whatever
  happens next, so a replay callback that fires in any later state \<open>t\<close> leaves the
  state as it is: it plays nothing and schedules nothing.\<close>

theorem cleanup_silences:
  assumes "reaches opts (init v) s" and "reaches opts (effect_cleanup s) t"
  shows "audioRef (effect_cleanup s) = None \<and> \<not> isPlaying (effect_cleanup s)
     \<and> (\<forall>a. audioRef s = Some a \<longrightarrow>
           el_paused (audios (effect_cleanup s) a)
           \<and> el_currentTime (audios (effect_cleanup s) a) = 0)
     \<and> timers (effect_cleanup s) = [] \<and> intervalRef (effect_cleanup s) = None
     \<and> \<not> isActiveRef (effect_cleanup s)
     \<and> \<not> isActiveRef t \<and> timer_callback opts cv r t = Inr t
     \<and> step opts (Fire h cv r) t = Inr (clearInterval h t)"
proof -
  have "playing_has_audio s"
    using assms(1) init_invariants(1) by (rule reaches_playing_has_audio)
  then have quiet: "\<not> isPlaying (effect_cleanup s)"
    by (auto simp: effect_cleanup_fields(4) playing_has_audio_def)
  have halted: "el_paused (audios (effect_cleanup s) a)
      \<and> el_currentTime (audios (effect_cleanup s) a) = 0" if "audioRef s = Some a" for a
    using stopSoundEffect_element(1,2) [OF that] by (simp add: effect_cleanup_audios)
  have "pending_is_latest s"
    using assms(1) init_invariants(2) by (rule reaches_pending_is_latest)
  then have cleared: "timers (effect_cleanup s) = []"
    by (rule effect_cleanup_timers)
  have off: "\<not> isActiveRef t"
    using assms(2) effect_cleanup_fields(3) by (rule reaches_inactive)
  then have idle: "timer_callback opts cv r t = Inr t"
    by (simp add: timer_callback_def)
  from off have "step opts (Fire h cv r) t = Inr (clearInterval h t)"
    by (simp add: timer_callback_def clearInterval_def)
  with quiet halted cleared off idle show ?thesis
    by (simp add: effect_cleanup_fields)
qed

theorem cleanup_silences_witness:
  "audioRef demo_playing = Some 0 \<and> isPlaying demo_playing
     \<and> \<not> el_paused (audios demo_playing 0) \<and> timers demo_playing = [(1, 10000)]
     \<and> audioRef (effect_cleanup demo_playing) = None
     \<and> \<not> isPlaying (effect_cleanup demo_playing)
     \<and> el_paused (audios (effect_cleanup demo_playing) 0)
     \<and> el_currentTime (audios (effect_cleanup demo_playing) 0) = 0
     \<and> timers (effect_cleanup demo_playing) = []
     \<and> timers demo_replayed = [(2, 10000)]
     \<and> step demo (Fire 2 1 (1 / 2)) demo_replayed = Inr (clearInterval 2 demo_replayed)
     \<and> timers (clearInterval 2 demo_replayed) = []"
  using cleanup_silences [OF demo_playing_reached demo_replayed_reached, of 1 "1 / 2" 2]
  by (simp add: demo_playing_fields demo_replayed_timers clearInterval_def)

subsection \<open>Random replay\<close>

text \<open>C2, as claimed, fails twice. With the intervals 0 and 1/2 and \<open>Math.random()\<close>
  giving 9/10 the delay is 1, above the maximum. And the timeout set by a
  \<open>startRandom\<close> after a teardown fires without scheduling a successor: the hook is
  inactive.\<close>

theorem random_delay_counterexample:
  "minInterval fractional \<le> maxInterval fractional
     \<and> randomDelay fractional (9 / 10) = 1
     \<and> maxInterval fractional < randomDelay fractional (9 / 10)
     \<and> reaches demo (init 1) demo_restarted
     \<and> enabled (Fire 2 1 (1 / 2)) demo_restarted
     \<and> step demo (Fire 2 1 (1 / 2)) demo_restarted = Inr (clearInterval 2 demo_restarted)
     \<and> timers (clearInterval 2 demo_restarted) = []"
proof -
  have "\<lfloor>(27::real) / 20\<rfloor> = 1"
    by (simp add: floor_eq_iff)
  then have "randomDelay fractional (9 / 10) = 1"
    by (simp add: randomDelay_def fractional_def)
  moreover have "step demo (Fire 2 1 (1 / 2)) demo_restarted = Inr (clearInterval 2 demo_restarted)"
    using demo_restarted_fields(2) by (simp add: timer_callback_def clearInterval_def)
  ultimately show ?thesis
    by (simp add: fractional_def demo_restarted_fields demo_restarted_from_mount
        clearInterval_def)
qed

text \<open>C2, amended. For intervals with \<open>minInterval \<le> maxInterval\<close> that are a whole
  number apart, every delay computed from a \<open>Math.random()\<close> in [0, 1) is within
  [\<open>minInterval\<close>, \<open>maxInterval\<close>], and so is the delay of every timeout pending in a
  state the hook can reach. \<open>startRandom\<close> leaves exactly one timeout pending, and a
  timeout that fires while the hook is active leaves exactly one successor pending.\<close>

theorem random_delays_in_range:
  assumes "minInterval opts \<le> maxInterval opts"
    and "maxInterval opts - minInterval opts \<in> \<int>"
    and "0 \<le> r" and "r < 1"
    and "reaches opts (init v) s"
  shows "minInterval opts \<le> randomDelay opts r \<and> randomDelay opts r \<le> maxInterval opts
     \<and> delays_within opts s
     \<and> timers (startRandomPlayback opts r s) = [(nextTimer s, randomDelay opts r)]
     \<and> (isActiveRef s \<and> h \<in> fst ` set (timers s) \<longrightarrow>
          (\<exists>s'. step opts (Fire h cv r) s = Inr s'
             \<and> timers s' = [(nextTimer s, randomDelay opts r)]))"
proof -
  have bounds: "minInterval opts \<le> randomDelay opts r \<and> randomDelay opts r \<le> maxInterval opts"
    using randomDelay_bounds [OF assms(1-4)] by simp
  have within: "delays_within opts s"
    using assms(5) init_invariants(3) assms(1,2) by (rule reaches_delays_within)
  have latest: "pending_is_latest s"
    using assms(5) init_invariants(2) by (rule reaches_pending_is_latest)
  have first: "timers (startRandomPlayback opts r s) = [(nextTimer s, randomDelay opts r)]"
    using latest by (rule startRandomPlayback_timers(1))
  have fired: "\<exists>s'. step opts (Fire h cv r) s = Inr s'
      \<and> timers s' = [(nextTimer s, randomDelay opts r)]"
    if "isActiveRef s" and "h \<in> fst ` set (timers s)"
  proof -
    obtain s' where s': "timer_callback opts cv r (clearInterval h s) = Inr s'"
      using timer_callback_total by blast
    have "timers (clearInterval h s) = []"
      using latest that(2) by (rule fired_leaves_none)
    with timer_callback_timers(1) [OF s'] that(1)
    have "timers s' = [(nextTimer s, randomDelay opts r)]"
      by (simp add: clearInterval_def)
    with s' show ?thesis by simp
  qed
  from bounds within first fired show ?thesis by blast
qed

theorem random_delays_in_range_witness:
  "randomDelay demo (1 / 2) = 10000
     \<and> timers demo_started = [(1, 10000)]
     \<and> (\<exists>s'. step demo (Fire 1 1 (1 / 2)) demo_started = Inr s' \<and> timers s' = [(2, 10000)])"
proof -
  have "minInterval demo \<le> maxInterval demo" "maxInterval demo - minInterval demo \<in> \<int>"
    by (simp_all add: demo_def)
  from random_delays_in_range [OF this _ _ demo_started_reached, of "1 / 2" 1 1]
  show ?thesis
    by (simp add: demo_started_fields randomDelay_demo)
qed

section \<open>Properties of the user card\<close>

subsection \<open>The last message\<close>

lemma filter_Boolean_map:
  "filter_Boolean (map (\<lambda>m. if P m then Some m else None) ms) = filter P ms"
  by (induction ms) simp_all

lemma pop_filter: "pop (filter P ms) = find P (rev ms)"
  by (induction ms rule: rev_induct) (auto simp: pop_def split: if_splits)

lemma lastMessage_find:
  "lastMessage ms uid = find (\<lambda>m. receiverId m = uid \<or> senderId m = uid) (rev ms)"
  by (simp add: lastMessage_def filter_Boolean_map pop_filter)

lemma find_rev_Some:
  assumes "find P (rev ms) = Some m"
  shows "\<exists>pre post. ms = pre @ m # post \<and> P m \<and> (\<forall>x \<in> set post. \<not> P x)"
  using assms
proof (induction ms rule: rev_induct)
  case Nil
  then show ?case by simp
next
  case (snoc x xs)
  show ?case
  proof (cases "P x")
    case True
    with snoc.prems have "x = m" by simp
    with True have "xs @ [x] = xs @ m # [] \<and> P m \<and> (\<forall>y \<in> set []. \<not> P y)" by simp
    then show ?thesis by blast
  next
    case False
    with snoc.prems have "find P (rev xs) = Some m" by simp
    then obtain pre post where "xs = pre @ m # post" "P m" "\<forall>y \<in> set post. \<not> P y"
      using snoc.IH by blast
    with False have "xs @ [x] = pre @ m # (post @ [x]) \<and> P m \<and> (\<forall>y \<in> set (post @ [x]). \<not> P y)"
      by simp
    then show ?thesis by blast
  qed
qed

lemma slice_prefix: "0 \<le> n \<Longrightarrow> slice 0 n s = take (nat n) s"
  by (auto simp: slice_def Let_def min_def)

text \<open>C8, as claimed, fails on a card whose user is typing: with no message at all
  the second line reads \<open>Typing...\<close>, not \<open>No messages yet.\<close>\<close>

theorem last_message_counterexample:
  "lastMessage [] ''u1'' = None
     \<and> subtitle chat [] [''u1''] ''u1'' = ''Typing...''
     \<and> subtitle chat [] [''u1''] ''u1'' \<noteq> ''No messages yet.''"
  by (simp add: subtitle_def lastMessage_def pop_def)

text \<open>C8, amended. The last message of a card is what a scan of the messages from the
  end finds first among those sent by or to the card's user: it is absent exactly
  when no message matches, and otherwise it matches and no message after it does.
  When it is absent and the user is not typing, the second line reads
  \<open>No messages yet.\<close>\<close>

theorem lastMessage_is_last_match:
  "lastMessage messages uid = find (\<lambda>m. senderId m = uid \<or> receiverId m = uid) (rev messages)
     \<and> (lastMessage messages uid = None \<longleftrightarrow>
          (\<forall>m \<in> set messages. senderId m \<noteq> uid \<and> receiverId m \<noteq> uid))
     \<and> (\<forall>m. lastMessage messages uid = Some m \<longrightarrow>
          (\<exists>pre post. messages = pre @ m # post
             \<and> (senderId m = uid \<or> receiverId m = uid)
             \<and> (\<forall>x \<in> set post. senderId x \<noteq> uid \<and> receiverId x \<noteq> uid)))
     \<and> (lastMessage messages uid = None \<and> uid \<notin> set typingUsers \<longrightarrow>
          subtitle srv messages typingUsers uid = ''No messages yet.'')"
proof -
  let ?P = "\<lambda>m. receiverId m = uid \<or> senderId m = uid"
  have scan: "lastMessage messages uid = find ?P (rev messages)"
    by (rule lastMessage_find)
  have same: "find ?P (rev messages) = find (\<lambda>m. senderId m = uid \<or> receiverId m = uid) (rev messages)"
    by (rule arg_cong [where f = "\<lambda>p. find p (rev messages)"]) auto
  have none: "lastMessage messages uid = None \<longleftrightarrow>
      (\<forall>m \<in> set messages. senderId m \<noteq> uid \<and> receiverId m \<noteq> uid)"
    unfolding scan by (auto simp: find_None_iff)
  have some: "\<exists>pre post. messages = pre @ m # post
             \<and> (senderId m = uid \<or> receiverId m = uid)
             \<and> (\<forall>x \<in> set post. senderId x \<noteq> uid \<and> receiverId x \<noteq> uid)"
    if "lastMessage messages uid = Some m" for m
  proof -
    from that scan have "find ?P (rev messages) = Some m" by simp
    from find_rev_Some [OF this] show ?thesis by blast
  qed
  have shown: "subtitle srv messages typingUsers uid = ''No messages yet.''"
    if "lastMessage messages uid = None \<and> uid \<notin> set typingUsers"
    using that by (simp add: subtitle_def)
  from scan same none some shown show ?thesis by simp
qed

theorem lastMessage_is_last_match_witness:
  "lastMessage [long_from_u1, hi_from_me] ''u1'' = Some hi_from_me
     \<and> lastMessage [long_from_u1, hi_from_me] ''u2'' = None
     \<and> subtitle chat [long_from_u1, hi_from_me] [] ''u2'' = ''No messages yet.''"
  using lastMessage_is_last_match [of "[long_from_u1, hi_from_me]" "''u1''" "[]" chat]
    lastMessage_is_last_match [of "[long_from_u1, hi_from_me]" "''u2''" "[]" chat]
  by (simp add: hi_from_me_def long_from_u1_def)

subsection \<open>The second line\<close>

text \<open>C3, as claimed, fails for a message the owner sent and for a user who is typing:
  the content \<open>hi\<close> is shown as \<open>You: hi\<close> in the first case, and not at all in the
  second.\<close>

theorem subtitle_counterexample:
  "lastMessage [hi_from_me] ''u1'' = Some hi_from_me
     \<and> content hi_from_me = ''hi''
     \<and> subtitle chat [hi_from_me] [] ''u1'' = ''You: hi''
     \<and> subtitle chat [hi_from_me] [] ''u1'' \<noteq> ''hi''
     \<and> subtitle chat [hi_from_me] [''u1''] ''u1'' = ''Typing...''
     \<and> subtitle chat [hi_from_me] [''u1''] ''u1'' \<noteq> ''hi''"
  by (simp add: subtitle_def lastMessage_def pop_def hi_from_me_def chat_def)

text \<open>C3, amended. On a card whose user is not typing and has a last message with
  content \<open>s\<close>, the second line is \<open>You: \<close> when the owner sent the message, and
  nothing otherwise, followed by the first 20 characters of \<open>s\<close> and \<open>...\<close> when \<open>s\<close>
  is longer than 20 characters, and by \<open>s\<close> as it is otherwise.\<close>

theorem subtitle_truncates:
  assumes "uid \<notin> set typingUsers" and "lastMessage messages uid = Some m"
  shows "(20 < length (content m) \<longrightarrow>
            subtitle srv messages typingUsers uid =
              (if senderId m = owner srv then ''You: '' else []) @ take 20 (content m) @ ''...'')
       \<and> (length (content m) \<le> 20 \<longrightarrow>
            subtitle srv messages typingUsers uid =
              (if senderId m = owner srv then ''You: '' else []) @ content m)"
proof -
  have "slice 0 20 (content m) = take 20 (content m)"
    using slice_prefix [of 20 "content m"] by simp
  with assms show ?thesis
    by (simp add: subtitle_def)
qed

theorem subtitle_truncates_witness:
  "subtitle chat [hi_from_me, long_from_u1] [] ''u1'' = ''abcdefghijklmnopqrst...''
     \<and> subtitle chat [hi_from_me] [] ''u1'' = ''You: hi''"
proof -
  have a: "''u1'' \<notin> set []" by simp
  have b: "lastMessage [hi_from_me, long_from_u1] ''u1'' = Some long_from_u1"
    by (simp add: lastMessage_def pop_def hi_from_me_def long_from_u1_def)
  have c: "lastMessage [hi_from_me] ''u1'' = Some hi_from_me"
    by (simp add: lastMessage_def pop_def hi_from_me_def)
  from subtitle_truncates [OF a b, of chat] subtitle_truncates [OF a c, of chat]
  show ?thesis
    by (simp add: hi_from_me_def long_from_u1_def chat_def)
qed

text \<open>C9. On a card whose user is among the typing users the second line is
  \<open>Typing...\<close>, whatever the messages and the server are; so the last message and its
  \<open>You: \<close> show only when the user is not typing.\<close>

theorem typing_overrides:
  assumes "userId props \<in> set typingUsers"
  shows "subtitle srv messages typingUsers (userId props) = ''Typing...''
     \<and> (\<forall>view. UserCard toUpperCase (Some srv) messages typingUsers props = Inr (Some view)
          \<longrightarrow> v_subtitle view = ''Typing...'')"
  using assms by (auto simp: subtitle_def UserCard_def split: sum.splits)

theorem typing_overrides_witness:
  "subtitle chat [hi_from_me, long_from_u1] [''u1''] ''u1'' = ''Typing...''
     \<and> UserCard ascii_upper (Some chat) [hi_from_me, long_from_u1] [''u1''] alice =
         Inr (Some \<lparr>v_initial = ''A'', v_name = ''alice'', v_online = True,
                    v_subtitle = ''Typing...'', v_paperclip = False\<rparr>)"
proof -
  have "userId alice \<in> set [''u1'']" by (simp add: alice_def)
  from typing_overrides [OF this, of chat "[hi_from_me, long_from_u1]" ascii_upper]
  show ?thesis
    by (simp add: UserCard_def avatarInitial_def ascii_upper_def alice_def lastMessage_def
        pop_def hi_from_me_def long_from_u1_def)
qed

subsection \<open>The avatar\<close>

lemma avatarInitial_empty: "avatarInitial toUpperCase [] = Inl TypeError"
  by (simp add: avatarInitial_def)

text \<open>C10. For a user name that is not empty, reading its first character does not
  throw, and the initial the card shows is the upper case of that character.\<close>

theorem avatar_initial_defined:
  assumes "username props \<noteq> []"
  shows "avatarInitial toUpperCase (username props) = Inr (toUpperCase [hd (username props)])
     \<and> (\<exists>view. UserCard toUpperCase (Some srv) messages typingUsers props = Inr (Some view)
          \<and> v_initial view = toUpperCase [hd (username props)])"
  using assms by (cases "username props") (simp_all add: avatarInitial_def UserCard_def)

theorem avatar_initial_defined_witness:
  "username alice \<noteq> [] \<and> avatarInitial ascii_upper (username alice) = Inr ''A''"
proof -
  have "username alice \<noteq> []" by (simp add: alice_def)
  from this avatar_initial_defined [OF this, of ascii_upper chat "[]" "[]"]
  show ?thesis by (simp add: alice_def ascii_upper_def)
qed

subsection \<open>A click\<close>

text \<open>C5, as claimed, fails when no active user has the card's \<open>userId\<close>: the handler
  returns after the press sound, the open sound is not played and the store is not
  changed.\<close>

theorem click_counterexample:
  "find (\<lambda>user. userId user = ''u2'') [alice] = None
     \<and> map_sum id store (handleSetCurrentlyChatting (\<lambda>user st. Some user) [alice] ''u2'' fresh_card)
         = Inr None
     \<and> map_sum id playOpenSound
          (handleSetCurrentlyChatting (\<lambda>user st. Some user) [alice] ''u2'' fresh_card)
         = Inr (init 1)"
proof -
  obtain p where "playSoundEffect pressOptions (currentVolume (playPressSound fresh_card))
      (playPressSound fresh_card) = Inr p"
    using playSoundEffect_total by blast
  then show ?thesis
    by (simp add: handleSetCurrentlyChatting_def alice_def fresh_card_def)
qed

text \<open>C5, amended. A click never throws and always plays the press sound. When an
  active user has the card's \<open>userId\<close>, it also plays the open sound and calls
  \<open>setCurrentlyChatting\<close> with the first such user; when none has, it changes nothing
  else.\<close>

theorem click_effects:
  "\<exists>p. playSoundEffect pressOptions (currentVolume (playPressSound c)) (playPressSound c) = Inr p
     \<and> isPlaying p \<and> \<not> el_paused (audios p (nextAudio (playPressSound c)))
     \<and> (case find (\<lambda>user. userId user = uid) activeUsers of
          None \<Rightarrow>
            handleSetCurrentlyChatting setCurrentlyChatting activeUsers uid c =
              Inr (c\<lparr>playPressSound := p\<rparr>)
        | Some user \<Rightarrow>
            user \<in> set activeUsers \<and> userId user = uid
            \<and> (\<exists>q. playSoundEffect openOptions (currentVolume (playOpenSound c)) (playOpenSound c)
                      = Inr q
                  \<and> isPlaying q \<and> \<not> el_paused (audios q (nextAudio (playOpenSound c)))
                  \<and> handleSetCurrentlyChatting setCurrentlyChatting activeUsers uid c =
                      Inr (c\<lparr>playPressSound := p, playOpenSound := q,
                             store := setCurrentlyChatting user (store c)\<rparr>)))"
proof -
  obtain p where p: "playSoundEffect pressOptions (currentVolume (playPressSound c))
      (playPressSound c) = Inr p"
    using playSoundEffect_total by blast
  obtain q where q: "playSoundEffect openOptions (currentVolume (playOpenSound c))
      (playOpenSound c) = Inr q"
    using playSoundEffect_total by blast
  note pf = playSoundEffect_fields(2) [OF p] playSoundEffect_element(1) [OF p]
  note qf = playSoundEffect_fields(2) [OF q] playSoundEffect_element(1) [OF q]
  show ?thesis
  proof (cases "find (\<lambda>user. userId user = uid) activeUsers")
    case None
    with p pf show ?thesis
      by (simp add: handleSetCurrentlyChatting_def)
  next
    case (Some user)
    then have "user \<in> set activeUsers \<and> userId user = uid"
      by (auto simp: find_Some_iff)
    with Some p q pf qf show ?thesis
      by (simp add: handleSetCurrentlyChatting_def)
  qed
qed

theorem click_effects_witness:
  "find (\<lambda>user. userId user = ''u1'') [alice] = Some alice
     \<and> map_sum id store (handleSetCurrentlyChatting (\<lambda>user st. Some user) [alice] ''u1'' fresh_card)
         = Inr (Some alice)
     \<and> map_sum id (\<lambda>c. isPlaying (playOpenSound c))
          (handleSetCurrentlyChatting (\<lambda>user st. Some user) [alice] ''u1'' fresh_card)
         = Inr True"
  using click_effects [where c = fresh_card and uid = "''u1''" and activeUsers = "[alice]"
      and setCurrentlyChatting = "\<lambda>user st. Some user"]
  by (auto simp: alice_def fresh_card_def)

end
